theory Spec2Isabelle
  imports Main "HOL-Library.AList" "HOL-Library.Multiset"
begin

section \<open>Data model of hola.py\<close>

text \<open>
  The scheduler and the memory manager of NexusOS (src/hola.py). Python integers that
  are caller supplied (priority, requested sizes, total memory) are \<open>int\<close>; counters
  that start at 0 or 1 and are only incremented (pids, page ids, CPU time) are \<open>nat\<close>.
  The timestamps \<open>created_at\<close> and \<open>allocated_at\<close> and the printed lines are left out:
  no operation reads them.
\<close>

datatype ProcessState = NEW | READY | RUNNING | WAITING | TERMINATED

record Process =
  pid :: nat
  name :: string
  state :: ProcessState
  priority :: int
  memory_required :: int
  cpu_time_used :: nat

definition Process_init :: "nat \<Rightarrow> string \<Rightarrow> int \<Rightarrow> int \<Rightarrow> Process" where
  "Process_init p n pr mem =
     \<lparr>pid = p, name = n, state = NEW, priority = pr, memory_required = mem,
      cpu_time_used = 0\<rparr>"

section \<open>MemoryManager\<close>

text \<open>
  \<open>memory_map\<close> is a Python dict from page id to the record of its owner. It is an
  association list in insertion order with one entry per key, so that \<open>len\<close> is the
  length of the list; \<open>AList.update\<close> overwrites the entry of a key that is present and
  appends one for a key that is not, as the dict assignment does.
\<close>

datatype error = MemoryError | ZeroDivisionError

record MemoryManager =
  total_memory :: int
  available_memory :: int
  memory_map :: "(nat \<times> nat) list"
  page_size :: int

definition MemoryManager_init :: "int \<Rightarrow> MemoryManager" where
  "MemoryManager_init tm =
     \<lparr>total_memory = tm, available_memory = tm, memory_map = [], page_size = 4096\<rparr>"

text \<open>The loop \<open>for i in range(pages_needed)\<close>: each round takes \<open>len(memory_map)\<close> as id.\<close>

fun allocate_pages :: "nat \<Rightarrow> nat \<Rightarrow> (nat \<times> nat) list \<Rightarrow> nat list
    \<Rightarrow> (nat \<times> nat) list \<times> nat list" where
  "allocate_pages 0 owner m allocated_pages = (m, allocated_pages)"
| "allocate_pages (Suc n) owner m allocated_pages =
     (let page_id = length m
      in allocate_pages n owner (AList.update page_id owner m) (allocated_pages @ [page_id]))"

text \<open>
  \<open>allocate_memory\<close> returns the manager after the call and either the raised error or
  the returned list. \<open>//\<close> is floor division, as \<open>div\<close> on \<open>int\<close> is; Python raises on a
  zero divisor. \<open>range\<close> of a negative number is empty, hence \<open>nat\<close>.
\<close>

definition allocate_memory :: "MemoryManager \<Rightarrow> nat \<Rightarrow> int
    \<Rightarrow> MemoryManager \<times> (error + nat list)" where
  "allocate_memory mm process_pid sz =
     (if sz > available_memory mm then (mm, Inl MemoryError)
      else if page_size mm = 0 then (mm, Inl ZeroDivisionError)
      else
        let pages_needed = (sz + page_size mm - 1) div page_size mm;
            (m, allocated_pages) =
               allocate_pages (nat pages_needed) process_pid (memory_map mm) []
        in (mm\<lparr>memory_map := m,
                available_memory := available_memory mm - pages_needed * page_size mm\<rparr>,
            Inr allocated_pages))"

definition free_page :: "nat \<Rightarrow> MemoryManager \<Rightarrow> MemoryManager" where
  "free_page page_id mm =
     mm\<lparr>memory_map := AList.delete page_id (memory_map mm),
        available_memory := available_memory mm + page_size mm\<rparr>"

definition free_memory :: "MemoryManager \<Rightarrow> nat \<Rightarrow> MemoryManager" where
  "free_memory mm process_pid =
     (let pages_to_free = map fst (filter (\<lambda>(page_id, owner). owner = process_pid) (memory_map mm))
      in fold free_page pages_to_free mm)"

section \<open>ProcessScheduler\<close>

text \<open>
  A \<open>Process\<close> object is created only by \<open>create_process\<close>, under a fresh pid, and is
  stored in \<open>processes\<close> under that pid, which is never removed. The model identifies
  the object with its pid: \<open>processes\<close> is the store of the objects, \<open>ready_queue\<close> and
  \<open>running_process\<close> hold references into it, so that a write to a process is seen
  through every reference, as in Python. A reference always resolves in a state the
  operations can reach (\<open>reachable_inv\<close> below); \<open>deref\<close> yields a fresh process record
  for a reference that does not.
\<close>

record ProcessScheduler =
  ready_queue :: "nat list"
  running_process :: "nat option"
  processes :: "nat \<rightharpoonup> Process"
  next_pid :: nat
  quantum :: nat

definition ProcessScheduler_init :: ProcessScheduler where
  "ProcessScheduler_init =
     \<lparr>ready_queue = [], running_process = None, processes = Map.empty, next_pid = 1,
      quantum = 3\<rparr>"

definition deref :: "ProcessScheduler \<Rightarrow> nat \<Rightarrow> Process" where
  "deref s r = (case processes s r of Some x \<Rightarrow> x | None \<Rightarrow> Process_init r [] 1 1024)"

definition upd_obj :: "nat \<Rightarrow> (Process \<Rightarrow> Process) \<Rightarrow> ProcessScheduler \<Rightarrow> ProcessScheduler" where
  "upd_obj r f s = s\<lparr>processes := (processes s)(r := map_option f (processes s r))\<rparr>"

definition create_process :: "ProcessScheduler \<Rightarrow> string \<Rightarrow> int \<Rightarrow> int
    \<Rightarrow> ProcessScheduler \<times> nat" where
  "create_process s n pr mem =
     (let p = next_pid s;
          process = Process_init p n pr mem;
          s1 = s\<lparr>processes := (processes s)(p \<mapsto> process)\<rparr>;
          s2 = s1\<lparr>next_pid := next_pid s1 + 1\<rparr>;
          s3 = upd_obj p (\<lambda>x. x\<lparr>state := READY\<rparr>) s2;
          s4 = s3\<lparr>ready_queue := ready_queue s3 @ [p]\<rparr>
      in (s4, p))"

text \<open>
  \<open>sorted(xs, key=k, reverse=True)\<close>: Python's sort is stable, also with \<open>reverse\<close>,
  and orders by descending key.
\<close>

definition sorted_reverse :: "('a \<Rightarrow> int) \<Rightarrow> 'a list \<Rightarrow> 'a list" where
  "sorted_reverse k xs = sort_key (\<lambda>x. - k x) xs"

text \<open>The second half of \<open>schedule\<close>, from \<open>if self.ready_queue\<close> on.\<close>

definition schedule_next :: "ProcessScheduler \<Rightarrow> ProcessScheduler \<times> nat option" where
  "schedule_next s =
     (if ready_queue s \<noteq> [] then
        let sorted_queue = sorted_reverse (\<lambda>x. priority (deref s x)) (ready_queue s);
            next_process = hd sorted_queue;
            s1 = s\<lparr>ready_queue := tl sorted_queue\<rparr>;
            s2 = upd_obj next_process (\<lambda>x. x\<lparr>state := RUNNING\<rparr>) s1;
            s3 = s2\<lparr>running_process := Some next_process\<rparr>
        in (s3, Some next_process)
      else (s, None))"

definition schedule :: "ProcessScheduler \<Rightarrow> ProcessScheduler \<times> nat option" where
  "schedule s =
     (case running_process s of
        Some r \<Rightarrow>
          if cpu_time_used (deref s r) < quantum s then (s, Some r)
          else
            let s1 = upd_obj r (\<lambda>x. x\<lparr>state := READY\<rparr>) s;
                s2 = s1\<lparr>ready_queue := ready_queue s1 @ [r]\<rparr>
            in schedule_next s2
      | None \<Rightarrow> schedule_next s)"

definition terminate_process :: "ProcessScheduler \<Rightarrow> nat \<Rightarrow> ProcessScheduler" where
  "terminate_process s p =
     (if processes s p \<noteq> None then
        let s1 = upd_obj p (\<lambda>x. x\<lparr>state := TERMINATED\<rparr>) s
        in (case running_process s1 of
              Some r \<Rightarrow> if pid (deref s1 r) = p then s1\<lparr>running_process := None\<rparr> else s1
            | None \<Rightarrow> s1)
      else s)"

definition execute_cycle :: "ProcessScheduler \<Rightarrow> ProcessScheduler" where
  "execute_cycle s =
     (case schedule s of
        (s1, Some current_process) \<Rightarrow>
          let s2 = upd_obj current_process
                     (\<lambda>x. x\<lparr>cpu_time_used := cpu_time_used x + 1\<rparr>) s1
          in if cpu_time_used (deref s2 current_process) \<ge> 5
             then terminate_process s2 (pid (deref s2 current_process))
             else s2
      | (s1, None) \<Rightarrow> s1)"

text \<open>The states of a scheduler that its four operations can produce.\<close>

inductive reachable :: "ProcessScheduler \<Rightarrow> bool" where
  r_init: "reachable ProcessScheduler_init"
| r_create: "reachable s \<Longrightarrow> reachable (fst (create_process s n pr mem))"
| r_schedule: "reachable s \<Longrightarrow> reachable (fst (schedule s))"
| r_execute: "reachable s \<Longrightarrow> reachable (execute_cycle s)"
| r_terminate: "reachable s \<Longrightarrow> reachable (terminate_process s p)"

text \<open>
  A run of calls on one scheduler; it collects the pids that the \<open>create_process\<close>
  calls return, in order.
\<close>

datatype sched_call =
  CreateProcess string int int | Schedule | ExecuteCycle | TerminateProcess nat

fun sched_step :: "ProcessScheduler \<Rightarrow> sched_call \<Rightarrow> ProcessScheduler \<times> nat list" where
  "sched_step s (CreateProcess n pr mem) = (fst (create_process s n pr mem), [snd (create_process s n pr mem)])"
| "sched_step s Schedule = (fst (schedule s), [])"
| "sched_step s ExecuteCycle = (execute_cycle s, [])"
| "sched_step s (TerminateProcess p) = (terminate_process s p, [])"

fun run_calls :: "ProcessScheduler \<Rightarrow> sched_call list \<Rightarrow> ProcessScheduler \<times> nat list" where
  "run_calls s [] = (s, [])"
| "run_calls s (c # cs) =
     (fst (run_calls (fst (sched_step s c)) cs),
      snd (sched_step s c) @ snd (run_calls (fst (sched_step s c)) cs))"

text \<open>
  What holds of every reachable scheduler: the references resolve, a process is stored
  under its own pid, below \<open>next_pid\<close>, and the processes in state \<open>RUNNING\<close> are
  exactly the one in the running slot.
\<close>

definition wf_sched :: "ProcessScheduler \<Rightarrow> bool" where
  "wf_sched s = (quantum s = 3 \<and>
     (\<forall>p x. processes s p = Some x \<longrightarrow> pid x = p \<and> p < next_pid s) \<and>
     set (ready_queue s) \<subseteq> dom (processes s) \<and>
     (\<forall>r. running_process s = Some r \<longrightarrow> r \<in> dom (processes s)))"

definition run_ok :: "ProcessScheduler \<Rightarrow> bool" where
  "run_ok s =
     (\<forall>p x. processes s p = Some x \<longrightarrow> (state x = RUNNING) = (running_process s = Some p))"

definition none_running :: "ProcessScheduler \<Rightarrow> bool" where
  "none_running s = (\<forall>p x. processes s p = Some x \<longrightarrow> state x \<noteq> RUNNING)"

section \<open>The scheduling algorithm as the specification words it\<close>

text \<open>
  The process of highest priority among \<open>x # xs\<close>, the earliest in the list among
  those of equal priority.
\<close>

fun first_highest :: "('a \<Rightarrow> int) \<Rightarrow> 'a \<Rightarrow> 'a list \<Rightarrow> 'a" where
  "first_highest k x [] = x"
| "first_highest k x (y # ys) =
     (let m = first_highest k y ys in if k x < k m then m else x)"

text \<open>
  Sorting by priority descending with ties broken by arrival order: the front is the
  earliest process of highest priority, the rest is the others sorted likewise.
\<close>

function spec_stable_sort :: "('a \<Rightarrow> int) \<Rightarrow> 'a list \<Rightarrow> 'a list" where
  "spec_stable_sort k [] = []"
| "spec_stable_sort k (x # xs) =
     (let m = first_highest k x xs in m # spec_stable_sort k (remove1 m (x # xs)))"
  by pat_completeness auto
termination
proof (relation "measure (\<lambda>(k, xs). length xs)")
  show "wf (measure (\<lambda>(k, xs). length xs))" by simp
next
  fix k :: "'a \<Rightarrow> int" and x xs m
  assume m: "m = first_highest k x xs"
  have "first_highest k y ys \<in> set (y # ys)" for y ys
    by (induction ys arbitrary: y) (auto simp: Let_def)
  with m have "m \<in> set (x # xs)" by blast
  then have "length (remove1 m (x # xs)) < length (x # xs)"
    by (simp only: length_remove1) simp
  then show "((k, remove1 m (x # xs)), (k, x # xs)) \<in> measure (\<lambda>(k, xs). length xs)"
    by simp
qed

text \<open>Step (2): the running process goes back to \<open>READY\<close>, at the back of the queue.\<close>

definition spec_demote :: "nat \<Rightarrow> ProcessScheduler \<Rightarrow> ProcessScheduler" where
  "spec_demote r s =
     s\<lparr>processes := (processes s)(r := map_option (\<lambda>x. x\<lparr>state := READY\<rparr>) (processes s r)),
       ready_queue := ready_queue s @ [r]\<rparr>"

text \<open>Steps (3) and (4): sort, pop the front and install it, or return none.\<close>

definition spec_dispatch :: "ProcessScheduler \<Rightarrow> ProcessScheduler \<times> nat option" where
  "spec_dispatch s =
     (case spec_stable_sort (\<lambda>x. priority (deref s x)) (ready_queue s) of
        [] \<Rightarrow> (s, None)
      | front # rest \<Rightarrow>
          (s\<lparr>ready_queue := rest,
             processes :=
               (processes s)(front := map_option (\<lambda>x. x\<lparr>state := RUNNING\<rparr>) (processes s front)),
             running_process := Some front\<rparr>,
           Some front))"

definition schedule_spec :: "ProcessScheduler \<Rightarrow> ProcessScheduler \<times> nat option" where
  "schedule_spec s =
     (case running_process s of
        Some r \<Rightarrow>
          if cpu_time_used (deref s r) < 3 then (s, Some r)
          else spec_dispatch (spec_demote r s)
      | None \<Rightarrow> spec_dispatch s)"

section \<open>NexusOS: the scheduler beside the memory manager\<close>

text \<open>
  \<open>NexusOS\<close> holds one scheduler and one memory manager. A method of a component
  reads and writes that component only, so a call on \<open>os.scheduler\<close> or on
  \<open>os.memory_manager\<close> replaces that field.
\<close>

record NexusOS =
  scheduler :: ProcessScheduler
  memory_manager :: MemoryManager

definition NexusOS_init :: NexusOS where
  "NexusOS_init =
     \<lparr>scheduler = ProcessScheduler_init, memory_manager = MemoryManager_init (1024 * 1024)\<rparr>"

definition os_create_process :: "NexusOS \<Rightarrow> string \<Rightarrow> int \<Rightarrow> int \<Rightarrow> NexusOS" where
  "os_create_process os n pr mem = os\<lparr>scheduler := fst (create_process (scheduler os) n pr mem)\<rparr>"

definition os_terminate_process :: "NexusOS \<Rightarrow> nat \<Rightarrow> NexusOS" where
  "os_terminate_process os p = os\<lparr>scheduler := terminate_process (scheduler os) p\<rparr>"

definition os_execute_cycle :: "NexusOS \<Rightarrow> NexusOS" where
  "os_execute_cycle os = os\<lparr>scheduler := execute_cycle (scheduler os)\<rparr>"

definition os_allocate_memory :: "NexusOS \<Rightarrow> nat \<Rightarrow> int \<Rightarrow> NexusOS" where
  "os_allocate_memory os p sz =
     os\<lparr>memory_manager := fst (allocate_memory (memory_manager os) p sz)\<rparr>"

text \<open>
  A process is created, 5000 bytes are allocated for it, and it is terminated.
\<close>

definition os_holding :: NexusOS where
  "os_holding =
     os_terminate_process
       (os_allocate_memory (os_create_process NexusOS_init ''A'' 1 1024) 1 5000) 1"

section \<open>Runs of the memory manager\<close>

datatype mem_call = AllocateMemory nat int | FreeMemory nat

fun mem_step :: "MemoryManager \<Rightarrow> mem_call \<Rightarrow> MemoryManager" where
  "mem_step mm (AllocateMemory p sz) = fst (allocate_memory mm p sz)"
| "mem_step mm (FreeMemory p) = free_memory mm p"

definition mem_run :: "MemoryManager \<Rightarrow> mem_call list \<Rightarrow> MemoryManager" where
  "mem_run mm calls = foldl mem_step mm calls"

text \<open>Memory conservation: the free bytes and the live pages add up to the total.\<close>

definition conserved :: "MemoryManager \<Rightarrow> bool" where
  "conserved mm =
     (available_memory mm + page_size mm * int (length (memory_map mm)) = total_memory mm)"

text \<open>
  The default manager after \<open>allocate_memory(p1, 4096)\<close>, \<open>allocate_memory(p2, 4096)\<close>
  and \<open>free_memory(1)\<close>: page 1 of process 2 is the only live page.
\<close>

definition mm_after_free :: MemoryManager where
  "mm_after_free =
     mem_run (MemoryManager_init (1024 * 1024))
       [AllocateMemory 1 4096, AllocateMemory 2 4096, FreeMemory 1]"

section \<open>Concrete schedulers\<close>

text \<open>Two fresh processes: A of priority 2 (pid 1) and B of priority 1 (pid 2).\<close>

definition two_ready :: ProcessScheduler where
  "two_ready =
     fst (run_calls ProcessScheduler_init
            [CreateProcess ''A'' 2 1024, CreateProcess ''B'' 1 1024])"

text \<open>The two processes after four calls of \<open>execute_cycle\<close>: A has run four ticks.\<close>

definition four_ticks :: ProcessScheduler where
  "four_ticks = fst (run_calls two_ready [ExecuteCycle, ExecuteCycle, ExecuteCycle, ExecuteCycle])"

section \<open>Lemmas on the scheduler\<close>

lemma sorted_reverse_set: "set (sorted_reverse k xs) = set xs"
  by (simp add: sorted_reverse_def)

lemma hd_sorted_reverse: "xs \<noteq> [] \<Longrightarrow> hd (sorted_reverse k xs) \<in> set xs"
  by (metis hd_in_set sorted_reverse_set set_empty)

lemma tl_sorted_reverse: "set (tl (sorted_reverse k xs)) \<subseteq> set xs"
  using sorted_reverse_set[of k xs] list.set_sel(2)[of "sorted_reverse k xs"]
  by (cases "sorted_reverse k xs") auto

lemma inv_init: "wf_sched ProcessScheduler_init \<and> run_ok ProcessScheduler_init"
  by (simp add: wf_sched_def run_ok_def ProcessScheduler_init_def)

lemma wf_create: "wf_sched s \<Longrightarrow> wf_sched (fst (create_process s n pr mem))"
  by (auto simp: wf_sched_def create_process_def upd_obj_def Let_def Process_init_def less_Suc_eq)

lemma run_ok_create: "wf_sched s \<Longrightarrow> run_ok s \<Longrightarrow> run_ok (fst (create_process s n pr mem))"
  unfolding wf_sched_def run_ok_def create_process_def upd_obj_def Let_def Process_init_def
  by (simp add: domIff) (metis less_irrefl option.exhaust)

lemma wf_schedule_next: "wf_sched s \<Longrightarrow> wf_sched (fst (schedule_next s))"
  using hd_sorted_reverse[of "ready_queue s" "\<lambda>x. priority (deref s x)"]
    tl_sorted_reverse[of "\<lambda>x. priority (deref s x)" "ready_queue s"]
  by (auto simp: wf_sched_def schedule_next_def upd_obj_def Let_def split: if_splits)

lemma run_ok_schedule_next:
  "wf_sched s \<Longrightarrow> none_running s \<Longrightarrow> ready_queue s \<noteq> [] \<Longrightarrow> run_ok (fst (schedule_next s))"
  using hd_sorted_reverse[of "ready_queue s" "\<lambda>x. priority (deref s x)"]
  by (auto simp: wf_sched_def none_running_def run_ok_def schedule_next_def upd_obj_def Let_def split: if_splits)

lemma run_ok_schedule_next_idle:
  "run_ok s \<Longrightarrow> ready_queue s = [] \<Longrightarrow> fst (schedule_next s) = s"
  by (simp add: schedule_next_def)

lemma wf_demote: "wf_sched s \<Longrightarrow> running_process s = Some r \<Longrightarrow>
   wf_sched ((upd_obj r (\<lambda>x. x\<lparr>state := READY\<rparr>) s)\<lparr>ready_queue := ready_queue s @ [r]\<rparr>)"
  by (auto simp: wf_sched_def upd_obj_def)

lemma none_running_demote: "run_ok s \<Longrightarrow> running_process s = Some r \<Longrightarrow>
   none_running ((upd_obj r (\<lambda>x. x\<lparr>state := READY\<rparr>) s)\<lparr>ready_queue := ready_queue s @ [r]\<rparr>)"
  by (auto simp: run_ok_def none_running_def upd_obj_def)

lemma none_running_idle: "run_ok s \<Longrightarrow> running_process s = None \<Longrightarrow> none_running s"
  by (auto simp: run_ok_def none_running_def)

lemma wf_schedule: "wf_sched s \<Longrightarrow> wf_sched (fst (schedule s))"
  using wf_schedule_next wf_demote
  by (auto simp: schedule_def Let_def upd_obj_def split: option.splits)

lemma run_ok_schedule: assumes "wf_sched s" "run_ok s" shows "run_ok (fst (schedule s))"
proof (cases "running_process s")
  case None
  then have nr: "none_running s" using assms none_running_idle by blast
  show ?thesis
  proof (cases "ready_queue s = []")
    case True
    with None assms show ?thesis by (simp add: schedule_def schedule_next_def)
  next
    case False
    with None nr assms run_ok_schedule_next show ?thesis by (simp add: schedule_def)
  qed
next
  case (Some r)
  show ?thesis
  proof (cases "cpu_time_used (deref s r) < quantum s")
    case True
    with Some assms show ?thesis by (simp add: schedule_def)
  next
    case False
    let ?s2 = "(upd_obj r (\<lambda>x. x\<lparr>state := READY\<rparr>) s)\<lparr>ready_queue := ready_queue s @ [r]\<rparr>"
    have "wf_sched ?s2" "none_running ?s2" "ready_queue ?s2 \<noteq> []"
      using wf_demote none_running_demote assms Some by auto
    then have "run_ok (fst (schedule_next ?s2))" using run_ok_schedule_next by blast
    with Some False show ?thesis by (simp add: schedule_def Let_def upd_obj_def)
  qed
qed

lemma wf_terminate: "wf_sched s \<Longrightarrow> wf_sched (terminate_process s p)"
  by (auto simp: wf_sched_def terminate_process_def upd_obj_def Let_def deref_def split: option.splits if_splits)

lemma run_ok_terminate: "wf_sched s \<Longrightarrow> run_ok s \<Longrightarrow> run_ok (terminate_process s p)"
  by (auto simp: wf_sched_def run_ok_def terminate_process_def upd_obj_def Let_def deref_def split: option.splits if_splits)

lemma wf_tick: "wf_sched s \<Longrightarrow> wf_sched (upd_obj c (\<lambda>x. x\<lparr>cpu_time_used := cpu_time_used x + 1\<rparr>) s)"
  by (auto simp: wf_sched_def upd_obj_def)

lemma run_ok_tick: "run_ok s \<Longrightarrow> run_ok (upd_obj c (\<lambda>x. x\<lparr>cpu_time_used := cpu_time_used x + 1\<rparr>) s)"
  by (auto simp: run_ok_def upd_obj_def)

lemma inv_execute: assumes "wf_sched s" "run_ok s"
  shows "wf_sched (execute_cycle s) \<and> run_ok (execute_cycle s)"
proof -
  have a: "wf_sched (fst (schedule s))" "run_ok (fst (schedule s))"
    using assms wf_schedule run_ok_schedule by auto
  show ?thesis
  proof (cases "schedule s")
    case (Pair s1 r)
    with a have b: "wf_sched s1" "run_ok s1" by auto
    show ?thesis
    proof (cases r)
      case None
      with Pair b show ?thesis by (simp add: execute_cycle_def)
    next
      case (Some c)
      let ?s2 = "upd_obj c (\<lambda>x. x\<lparr>cpu_time_used := cpu_time_used x + 1\<rparr>) s1"
      have "wf_sched ?s2" "run_ok ?s2" using b wf_tick run_ok_tick by auto
      then have "wf_sched (terminate_process ?s2 q) \<and> run_ok (terminate_process ?s2 q)" for q
        using wf_terminate run_ok_terminate by blast
      with \<open>wf_sched ?s2\<close> \<open>run_ok ?s2\<close> Pair Some show ?thesis
        by (simp add: execute_cycle_def Let_def)
    qed
  qed
qed

lemma reachable_inv: "reachable s \<Longrightarrow> wf_sched s \<and> run_ok s"
proof (induction rule: reachable.induct)
  case r_init
  show ?case by (rule inv_init)
next
  case (r_create s n pr mem)
  then show ?case using wf_create run_ok_create by blast
next
  case (r_schedule s)
  then show ?case using wf_schedule run_ok_schedule by blast
next
  case (r_execute s)
  then show ?case using inv_execute by blast
next
  case (r_terminate s p)
  then show ?case using wf_terminate run_ok_terminate by blast
qed

lemma reachable_run_calls: "reachable s \<Longrightarrow> reachable (fst (run_calls s cs))"
proof (induction cs arbitrary: s)
  case Nil
  then show ?case by simp
next
  case (Cons c cs)
  have "reachable (fst (sched_step s c))"
    using Cons.prems by (cases c) (auto intro: reachable.intros)
  then show ?case using Cons.IH by simp
qed

section \<open>Python's sort and the selection of the specification\<close>

lemma sort_key_first: "sort_key (\<lambda>z. - k z) (x # xs) =
   first_highest k x xs # sort_key (\<lambda>z. - k z) (remove1 (first_highest k x xs) (x # xs))"
proof (induction xs arbitrary: x)
  case Nil
  show ?case by simp
next
  case (Cons y ys)
  let ?m = "first_highest k y ys"
  show ?case
  proof (cases "k x < k ?m")
    case True
    then have "x \<noteq> ?m" by auto
    with True Cons[of y] show ?thesis by (simp add: Let_def)
  next
    case False
    with Cons[of y] show ?thesis by (simp add: Let_def)
  qed
qed

lemma sorted_reverse_spec: "sorted_reverse k xs = spec_stable_sort k xs"
proof (induction k xs rule: spec_stable_sort.induct)
  case (1 k)
  show ?case by (simp add: sorted_reverse_def)
next
  case (2 k x xs)
  then show ?case
    unfolding sorted_reverse_def by (simp only: sort_key_first spec_stable_sort.simps Let_def)
qed

lemma sorted_reverse_props:
  "mset (sorted_reverse k xs) = mset xs"
  "sorted_wrt (\<lambda>a b. k a \<ge> k b) (sorted_reverse k xs)"
  "filter (\<lambda>y. k y = v) (sorted_reverse k xs) = filter (\<lambda>y. k y = v) xs"
proof -
  show "mset (sorted_reverse k xs) = mset xs" by (simp add: sorted_reverse_def)
  have "sorted (map (\<lambda>x. - k x) (sort_key (\<lambda>x. - k x) xs))" by (rule sorted_sort_key)
  then show "sorted_wrt (\<lambda>a b. k a \<ge> k b) (sorted_reverse k xs)"
    by (simp add: sorted_reverse_def sorted_map)
  have "filter (\<lambda>y. - k y = - v) (sort_key (\<lambda>x. - k x) xs) = filter (\<lambda>y. - k y = - v) xs"
    by (rule sort_key_stable)
  then show "filter (\<lambda>y. k y = v) (sorted_reverse k xs) = filter (\<lambda>y. k y = v) xs"
    by (simp add: sorted_reverse_def)
qed

lemma schedule_next_spec: "schedule_next s = spec_dispatch s"
proof (cases "ready_queue s")
  case Nil
  then show ?thesis by (simp add: schedule_next_def spec_dispatch_def)
next
  case (Cons x xs)
  then show ?thesis
    by (simp add: schedule_next_def spec_dispatch_def sorted_reverse_spec Let_def upd_obj_def)
qed

section \<open>The two-process scheduler\<close>

lemma two_ready_simps:
  "ready_queue two_ready = [1, 2]"
  "running_process two_ready = None"
  "quantum two_ready = 3"
  "next_pid two_ready = 3"
  "processes two_ready (Suc 0) = Some \<lparr>pid = 1, name = ''A'', state = READY, priority = 2, memory_required = 1024, cpu_time_used = 0\<rparr>"
  "processes two_ready 2 = Some \<lparr>pid = 2, name = ''B'', state = READY, priority = 1, memory_required = 1024, cpu_time_used = 0\<rparr>"
  by (simp_all add: two_ready_def ProcessScheduler_init_def create_process_def Let_def upd_obj_def Process_init_def)


lemma schedule_two_ready:
  "snd (schedule two_ready) = Some 1"
  "ready_queue (fst (schedule two_ready)) = [2]"
  "running_process (fst (schedule two_ready)) = Some 1"
  "map_option state (processes (fst (schedule two_ready)) (Suc 0)) = Some RUNNING"
  "map_option state (processes (fst (schedule two_ready)) 2) = Some READY"
  by (simp_all add: two_ready_simps schedule_def schedule_next_def sorted_reverse_def deref_def upd_obj_def Let_def)


lemma two_ready_reachable: "reachable two_ready"
  unfolding two_ready_def by (rule reachable_run_calls [OF r_init])

lemma schedule_next_returns: "snd (schedule_next s) = Some c \<Longrightarrow> running_process (fst (schedule_next s)) = Some c"
  by (auto simp: schedule_next_def Let_def upd_obj_def split: if_splits)

lemma schedule_returns_running:
  "snd (schedule s) = Some c \<Longrightarrow> running_process (fst (schedule s)) = Some c"
  using schedule_next_returns
  by (auto simp: schedule_def Let_def split: option.splits if_splits)

lemma schedule_returned_process:
  assumes "reachable s" "snd (schedule s) = Some c"
  shows "\<exists>x. processes (fst (schedule s)) c = Some x \<and> state x = RUNNING \<and> pid x = c"
proof -
  have "reachable (fst (schedule s))" using assms(1) by (rule r_schedule)
  then have i: "wf_sched (fst (schedule s))" "run_ok (fst (schedule s))"
    using reachable_inv by blast+
  have r: "running_process (fst (schedule s)) = Some c"
    using assms(2) by (rule schedule_returns_running)
  with i(1) obtain x where x: "processes (fst (schedule s)) c = Some x"
    by (auto simp: wf_sched_def)
  with i r show ?thesis by (auto simp: wf_sched_def run_ok_def)
qed

lemma four_ticks_reachable: "reachable four_ticks"
  unfolding four_ticks_def by (rule reachable_run_calls [OF two_ready_reachable])

lemmas exec_defs = execute_cycle_def schedule_def schedule_next_def sorted_reverse_def
  deref_def upd_obj_def terminate_process_def Let_def

lemma first_tick:
  "ready_queue (execute_cycle two_ready) = [2]"
  "running_process (execute_cycle two_ready) = Some 1"
  "quantum (execute_cycle two_ready) = 3"
  "processes (execute_cycle two_ready) (Suc 0) = Some \<lparr>pid = 1, name = ''A'', state = RUNNING, priority = 2, memory_required = 1024, cpu_time_used = 1\<rparr>"
  "processes (execute_cycle two_ready) 2 = Some \<lparr>pid = 2, name = ''B'', state = READY, priority = 1, memory_required = 1024, cpu_time_used = 0\<rparr>"
  by (simp_all add: two_ready_simps exec_defs)

lemma four_ticks_simps:
  "ready_queue four_ticks = [2]"
  "running_process four_ticks = Some 1"
  "quantum four_ticks = 3"
  "processes four_ticks (Suc 0) = Some \<lparr>pid = 1, name = ''A'', state = RUNNING, priority = 2, memory_required = 1024, cpu_time_used = 4\<rparr>"
  "processes four_ticks 2 = Some \<lparr>pid = 2, name = ''B'', state = READY, priority = 1, memory_required = 1024, cpu_time_used = 0\<rparr>"
  by (simp_all add: four_ticks_def two_ready_simps exec_defs)


lemma fifth_tick:
  "snd (schedule four_ticks) = Some 1"
  "map_option cpu_time_used (processes (fst (schedule four_ticks)) (Suc 0)) = Some 4"
  "processes (execute_cycle four_ticks) (Suc 0) = Some \<lparr>pid = 1, name = ''A'', state = TERMINATED, priority = 2, memory_required = 1024, cpu_time_used = 5\<rparr>"
  "running_process (execute_cycle four_ticks) = None"
  "ready_queue (execute_cycle four_ticks) = [2]"
  by (simp_all add: four_ticks_simps exec_defs)

lemma terminate_priority: "priority (deref (terminate_process s p) x) = priority (deref s x)"
  by (auto simp: terminate_process_def deref_def upd_obj_def Let_def split: option.splits)

lemma terminate_queue: "ready_queue (terminate_process s p) = ready_queue s"
  by (auto simp: terminate_process_def upd_obj_def Let_def split: option.splits)

lemma terminate_two_ready:
  "snd (schedule (terminate_process two_ready 1)) = Some 1"
  by (simp add: two_ready_simps exec_defs)

section \<open>The pid counter\<close>

lemma next_pid_schedule_next: "next_pid (fst (schedule_next s)) = next_pid s"
  by (simp add: schedule_next_def Let_def upd_obj_def)

lemma next_pid_schedule: "next_pid (fst (schedule s)) = next_pid s"
  by (simp add: schedule_def next_pid_schedule_next Let_def upd_obj_def split: option.splits)

lemma next_pid_terminate: "next_pid (terminate_process s p) = next_pid s"
  by (simp add: terminate_process_def Let_def upd_obj_def split: option.splits)

lemma next_pid_execute: "next_pid (execute_cycle s) = next_pid s"
proof (cases "schedule s")
  case (Pair s1 r)
  then have "next_pid s1 = next_pid s" using next_pid_schedule [of s] by simp
  with Pair show ?thesis
    by (cases r) (simp_all add: execute_cycle_def Let_def next_pid_terminate upd_obj_def)
qed

lemma create_process_result:
  "snd (create_process s n pr mem) = next_pid s"
  "next_pid (fst (create_process s n pr mem)) = next_pid s + 1"
  "ready_queue (fst (create_process s n pr mem)) = ready_queue s @ [next_pid s]"
  "processes (fst (create_process s n pr mem)) (next_pid s) =
     Some \<lparr>pid = next_pid s, name = n, state = READY, priority = pr, memory_required = mem,
           cpu_time_used = 0\<rparr>"
  by (simp_all add: create_process_def Let_def upd_obj_def Process_init_def)

lemma sched_step_pids:
  "snd (sched_step s c) = [next_pid s ..< next_pid (fst (sched_step s c))]"
  by (cases c)
    (simp_all add: create_process_result next_pid_schedule next_pid_execute next_pid_terminate)

lemma sched_step_next_pid: "next_pid s \<le> next_pid (fst (sched_step s c))"
  by (cases c)
    (simp_all add: create_process_result next_pid_schedule next_pid_execute next_pid_terminate)

lemma run_calls_pids:
  "next_pid s \<le> next_pid (fst (run_calls s cs)) \<and>
   snd (run_calls s cs) = [next_pid s ..< next_pid (fst (run_calls s cs))]"
proof (induction cs arbitrary: s)
  case Nil
  show ?case by simp
next
  case (Cons c cs)
  let ?s1 = "fst (sched_step s c)"
  have a: "next_pid s \<le> next_pid ?s1" by (rule sched_step_next_pid)
  have b: "next_pid ?s1 \<le> next_pid (fst (run_calls ?s1 cs))" using Cons.IH by blast
  have "snd (run_calls s (c # cs)) =
        [next_pid s ..< next_pid ?s1] @ [next_pid ?s1 ..< next_pid (fst (run_calls ?s1 cs))]"
    using Cons.IH [of ?s1] sched_step_pids [of s c] by simp
  also have "\<dots> = [next_pid s ..< next_pid (fst (run_calls ?s1 cs))]"
    using upt_add_eq_append [OF a, of "next_pid (fst (run_calls ?s1 cs)) - next_pid ?s1"] b
    by simp
  finally show ?case using a b by simp
qed

section \<open>The scheduling algorithm\<close>

text \<open>
  C3: \<open>schedule\<close> is the algorithm of the specification, \<open>schedule_spec\<close>: (1) a running
  process whose \<open>cpu_time_used\<close> is below the quantum 3 is returned with the scheduler
  unchanged; (2) otherwise the running process, if any, is set to \<open>READY\<close> and appended
  to the ready queue; (3) a non-empty queue is sorted by priority descending with ties
  in arrival order, its front is popped, set to \<open>RUNNING\<close>, installed as running
  process and returned; (4) otherwise none is returned. The two functions agree on
  the returned process and on the whole scheduler after the call.
\<close>

theorem schedule_refines_spec: "quantum s = 3 \<Longrightarrow> schedule s = schedule_spec s"
  by (simp add: schedule_def schedule_spec_def schedule_next_spec spec_demote_def upd_obj_def
      Let_def deref_def split: option.splits)

theorem schedule_refines_spec_witness:
  "quantum two_ready = 3 \<and> schedule two_ready = schedule_spec two_ready \<and>
   snd (schedule_spec two_ready) = Some 1"
proof -
  have q: "quantum two_ready = 3" by (rule two_ready_simps(3))
  have e: "schedule two_ready = schedule_spec two_ready" using schedule_refines_spec [OF q] .
  have "snd (schedule_spec two_ready) = Some 1"
    unfolding e [symmetric] by (rule schedule_two_ready(1))
  with q e show ?thesis by blast
qed

section \<open>One running process\<close>

text \<open>
  C4: after a call of \<open>schedule\<close> on a scheduler that the operations can reach, every
  process of the table in state \<open>RUNNING\<close> is the one in the running slot, so at most
  one process is in that state.
\<close>

theorem schedule_one_running:
  assumes "reachable s"
  shows "(\<forall>p x. processes (fst (schedule s)) p = Some x \<and> state x = RUNNING
            \<longrightarrow> running_process (fst (schedule s)) = Some p) \<and>
         (\<forall>p q x y. processes (fst (schedule s)) p = Some x \<and> state x = RUNNING \<and>
                     processes (fst (schedule s)) q = Some y \<and> state y = RUNNING \<longrightarrow> p = q)"
proof -
  have "reachable (fst (schedule s))" using assms by (rule r_schedule)
  then have r: "run_ok (fst (schedule s))" using reachable_inv by blast
  show ?thesis
  proof (intro conjI allI impI)
    fix p x assume "processes (fst (schedule s)) p = Some x \<and> state x = RUNNING"
    with r show "running_process (fst (schedule s)) = Some p" by (auto simp: run_ok_def)
  next
    fix p q x y
    assume "processes (fst (schedule s)) p = Some x \<and> state x = RUNNING \<and>
            processes (fst (schedule s)) q = Some y \<and> state y = RUNNING"
    with r have "running_process (fst (schedule s)) = Some p" "running_process (fst (schedule s)) = Some q"
      by (auto simp: run_ok_def)
    then show "p = q" by simp
  qed
qed

theorem schedule_one_running_witness:
  "reachable two_ready \<and>
   map_option state (processes (fst (schedule two_ready)) 1) = Some RUNNING \<and>
   running_process (fst (schedule two_ready)) = Some 1"
proof -
  have a: "\<forall>p x. processes (fst (schedule two_ready)) p = Some x \<and> state x = RUNNING
            \<longrightarrow> running_process (fst (schedule two_ready)) = Some p"
    using schedule_one_running [OF two_ready_reachable] by (rule conjunct1)
  have b: "map_option state (processes (fst (schedule two_ready)) 1) = Some RUNNING"
    using schedule_two_ready(4) by (simp only: One_nat_def)
  then obtain x where "processes (fst (schedule two_ready)) 1 = Some x \<and> state x = RUNNING"
    by auto
  with a have "running_process (fst (schedule two_ready)) = Some 1" by blast
  with b two_ready_reachable show ?thesis by blast
qed

section \<open>One tick\<close>

text \<open>
  C6: \<open>execute_cycle\<close> calls \<open>schedule\<close>. When \<open>schedule\<close> returns no process the tick
  ends there; when it returns a process, that process has its \<open>cpu_time_used\<close>
  incremented by exactly 1, and if the new value reaches 5 the process is in state
  \<open>TERMINATED\<close> and the running slot is empty when the tick ends (below 5 it stays
  \<open>RUNNING\<close> in the slot).
\<close>

theorem execute_cycle_tick:
  assumes "reachable s"
  shows "(snd (schedule s) = None \<longrightarrow> execute_cycle s = fst (schedule s)) \<and>
         (\<forall>c. snd (schedule s) = Some c \<longrightarrow>
            (\<exists>x y. processes (fst (schedule s)) c = Some x \<and>
                   processes (execute_cycle s) c = Some y \<and>
                   cpu_time_used y = cpu_time_used x + 1 \<and>
                   (cpu_time_used y \<ge> 5 \<longrightarrow>
                      state y = TERMINATED \<and> running_process (execute_cycle s) = None) \<and>
                   (cpu_time_used y < 5 \<longrightarrow>
                      state y = RUNNING \<and> running_process (execute_cycle s) = Some c)))"
proof (intro conjI allI impI)
  assume "snd (schedule s) = None"
  then show "execute_cycle s = fst (schedule s)"
    by (cases "schedule s") (simp add: execute_cycle_def)
next
  fix c assume c: "snd (schedule s) = Some c"
  obtain s1 where s1: "schedule s = (s1, Some c)" using c by (cases "schedule s") auto
  from schedule_returned_process [OF assms c] s1
  obtain x where x: "processes s1 c = Some x" "state x = RUNNING" "pid x = c" by auto
  have r: "running_process s1 = Some c" using schedule_returns_running [OF c] s1 by simp
  show "\<exists>x y. processes (fst (schedule s)) c = Some x \<and>
                   processes (execute_cycle s) c = Some y \<and>
                   cpu_time_used y = cpu_time_used x + 1 \<and>
                   (cpu_time_used y \<ge> 5 \<longrightarrow>
                      state y = TERMINATED \<and> running_process (execute_cycle s) = None) \<and>
                   (cpu_time_used y < 5 \<longrightarrow>
                      state y = RUNNING \<and> running_process (execute_cycle s) = Some c)"
    using s1 x r
    by (auto simp: execute_cycle_def Let_def upd_obj_def deref_def terminate_process_def)
qed


theorem execute_cycle_tick_witness:
  "reachable four_ticks \<and> snd (schedule four_ticks) = Some 1 \<and>
   map_option cpu_time_used (processes (fst (schedule four_ticks)) 1) = Some 4 \<and>
   map_option cpu_time_used (processes (execute_cycle four_ticks) 1) = Some 5 \<and>
   map_option state (processes (execute_cycle four_ticks) 1) = Some TERMINATED \<and>
   running_process (execute_cycle four_ticks) = None"
proof -
  have "\<exists>x y. processes (fst (schedule four_ticks)) 1 = Some x \<and>
               processes (execute_cycle four_ticks) 1 = Some y \<and>
               cpu_time_used y = cpu_time_used x + 1 \<and>
               (cpu_time_used y \<ge> 5 \<longrightarrow>
                  state y = TERMINATED \<and> running_process (execute_cycle four_ticks) = None) \<and>
               (cpu_time_used y < 5 \<longrightarrow>
                  state y = RUNNING \<and> running_process (execute_cycle four_ticks) = Some 1)"
    using execute_cycle_tick [OF four_ticks_reachable] fifth_tick(1) by blast
  then obtain x y where xy: "processes (fst (schedule four_ticks)) 1 = Some x"
      "processes (execute_cycle four_ticks) 1 = Some y"
      "cpu_time_used y = cpu_time_used x + 1"
      "cpu_time_used y \<ge> 5 \<longrightarrow>
          state y = TERMINATED \<and> running_process (execute_cycle four_ticks) = None"
    by blast
  from xy(1) fifth_tick(2) have "cpu_time_used x = 4" by simp
  with xy have "cpu_time_used y = 5" "state y = TERMINATED"
    "running_process (execute_cycle four_ticks) = None" by simp_all
  with xy(1,2) \<open>cpu_time_used x = 4\<close> four_ticks_reachable fifth_tick(1) show ?thesis by simp
qed

section \<open>Terminating a process that waits in the ready queue\<close>

text \<open>
  C10: for a process \<open>p\<close> that is in the ready queue and is not the running process,
  \<open>terminate_process\<close> sets the state of \<open>p\<close> to \<open>TERMINATED\<close> and leaves the ready
  queue (and the running slot) as they are; a following \<open>schedule\<close> that returns \<open>p\<close>
  has set it to \<open>RUNNING\<close> in the running slot, and it does return \<open>p\<close> when no process
  is running and \<open>p\<close> is at the front of the sorted queue.
\<close>

theorem terminated_process_rescheduled:
  assumes "reachable s" "p \<in> set (ready_queue s)" "running_process s \<noteq> Some p"
  shows "ready_queue (terminate_process s p) = ready_queue s \<and>
         map_option state (processes (terminate_process s p) p) = Some TERMINATED \<and>
         running_process (terminate_process s p) = running_process s \<and>
         (snd (schedule (terminate_process s p)) = Some p \<longrightarrow>
            map_option state (processes (fst (schedule (terminate_process s p))) p) = Some RUNNING \<and>
            running_process (fst (schedule (terminate_process s p))) = Some p) \<and>
         (running_process s = None \<and>
          hd (sorted_reverse (\<lambda>x. priority (deref s x)) (ready_queue s)) = p \<longrightarrow>
            snd (schedule (terminate_process s p)) = Some p)"
proof -
  have i: "wf_sched s" using assms(1) reachable_inv by blast
  with assms(2) obtain x where x: "processes s p = Some x" by (auto simp: wf_sched_def)
  have run: "running_process (terminate_process s p) = running_process s"
  proof (cases "running_process s")
    case None
    then show ?thesis by (simp add: terminate_process_def upd_obj_def Let_def)
  next
    case (Some r)
    with i obtain y where "processes s r = Some y" "pid y = r" by (auto simp: wf_sched_def)
    with Some assms(3) x show ?thesis
      by (auto simp: terminate_process_def upd_obj_def Let_def deref_def)
  qed
  have st: "map_option state (processes (terminate_process s p) p) = Some TERMINATED"
    using x by (auto simp: terminate_process_def upd_obj_def Let_def split: option.splits)
  have rt: "reachable (terminate_process s p)" using assms(1) by (rule r_terminate)
  have again: "map_option state (processes (fst (schedule (terminate_process s p))) p) = Some RUNNING \<and>
            running_process (fst (schedule (terminate_process s p))) = Some p"
    if "snd (schedule (terminate_process s p)) = Some p"
    using schedule_returned_process [OF rt that] schedule_returns_running [OF that] by auto
  have pick: "snd (schedule (terminate_process s p)) = Some p"
    if "running_process s = None \<and>
          hd (sorted_reverse (\<lambda>x. priority (deref s x)) (ready_queue s)) = p"
  proof -
    have "ready_queue s \<noteq> []" using assms(2) by auto
    with that run show ?thesis
      by (simp add: schedule_def schedule_next_def Let_def terminate_priority terminate_queue)
  qed
  from terminate_queue run st again pick show ?thesis by blast
qed

theorem terminated_process_rescheduled_witness:
  "reachable two_ready \<and> 1 \<in> set (ready_queue two_ready) \<and> running_process two_ready \<noteq> Some 1 \<and>
   map_option state (processes (terminate_process two_ready 1) 1) = Some TERMINATED \<and>
   ready_queue (terminate_process two_ready 1) = ready_queue two_ready \<and>
   snd (schedule (terminate_process two_ready 1)) = Some 1 \<and>
   map_option state (processes (fst (schedule (terminate_process two_ready 1))) 1) = Some RUNNING"
proof -
  have a: "1 \<in> set (ready_queue two_ready)" by (simp add: two_ready_simps)
  have b: "running_process two_ready \<noteq> Some 1" by (simp add: two_ready_simps)
  from terminated_process_rescheduled [OF two_ready_reachable a b] terminate_two_ready
    two_ready_reachable a b
  show ?thesis by blast
qed

section \<open>Creating processes\<close>

text \<open>
  C8: \<open>create_process\<close> has no failing branch (it is a total function with no error
  result). In every run of calls on one scheduler, creations interleaved with any
  other calls, the returned pids are strictly increasing, hence unique; each call
  returns \<open>next_pid\<close> and advances it by one, appends the new pid to the back of the
  ready queue and leaves the new process in state \<open>READY\<close>.
\<close>

theorem create_process_pids:
  "sorted_wrt (<) (snd (run_calls s cs)) \<and> distinct (snd (run_calls s cs)) \<and>
   snd (create_process s n pr mem) = next_pid s \<and>
   next_pid (fst (create_process s n pr mem)) = next_pid s + 1 \<and>
   ready_queue (fst (create_process s n pr mem)) =
     ready_queue s @ [snd (create_process s n pr mem)] \<and>
   map_option state
     (processes (fst (create_process s n pr mem)) (snd (create_process s n pr mem))) =
     Some READY"
proof -
  have "snd (run_calls s cs) = [next_pid s ..< next_pid (fst (run_calls s cs))]"
    using run_calls_pids by blast
  then have "sorted_wrt (<) (snd (run_calls s cs))" "distinct (snd (run_calls s cs))"
    by (simp_all add: sorted_wrt_upt)
  then show ?thesis by (simp add: create_process_result)
qed

theorem create_process_pids_witness:
  "snd (run_calls ProcessScheduler_init
          [CreateProcess ''A'' 2 1024, Schedule, CreateProcess ''B'' 1 1024, TerminateProcess 1,
           ExecuteCycle, CreateProcess ''C'' 5 0]) = [1, 2, 3] \<and>
   sorted_wrt (<) (snd (run_calls ProcessScheduler_init
          [CreateProcess ''A'' 2 1024, Schedule, CreateProcess ''B'' 1 1024, TerminateProcess 1,
           ExecuteCycle, CreateProcess ''C'' 5 0]))"
proof -
  have "snd (run_calls ProcessScheduler_init
          [CreateProcess ''A'' 2 1024, Schedule, CreateProcess ''B'' 1 1024, TerminateProcess 1,
           ExecuteCycle, CreateProcess ''C'' 5 0]) = [1, 2, 3]"
    by (simp add: create_process_result next_pid_schedule next_pid_execute next_pid_terminate
        ProcessScheduler_init_def)
  with create_process_pids [of ProcessScheduler_init
          "[CreateProcess ''A'' 2 1024, Schedule, CreateProcess ''B'' 1 1024, TerminateProcess 1,
           ExecuteCycle, CreateProcess ''C'' 5 0]"]
  show ?thesis by blast
qed

section \<open>Lemmas on the memory manager\<close>

text \<open>
  As long as the page ids are \<open>0, \<dots>, n - 1\<close> (no page has been freed) \<open>len(memory_map)\<close>
  is a fresh id: an allocation of \<open>sz \<ge> 0\<close> bytes appends \<open>\<lceil>sz / 4096\<rceil>\<close> pages under the
  next ids and keeps the memory conserved. \<open>free_memory\<close> keeps it conserved on every
  page map. The page count of \<open>allocate_memory\<close> is the ceiling of \<open>sz / 4096\<close>.
\<close>

lemma update_fresh: "k \<notin> fst ` set m \<Longrightarrow> AList.update k v m = m @ [(k, v)]"
  by (induction m) auto

lemma allocate_pages_compact:
  "map fst m = [0..<length m] \<Longrightarrow>
   allocate_pages n p m acc =
     (m @ map (\<lambda>i. (i, p)) [length m ..< length m + n], acc @ [length m ..< length m + n])"
proof (induction n arbitrary: m acc)
  case 0
  show ?case by simp
next
  case (Suc n)
  have "length m \<notin> set (map fst m)" unfolding Suc.prems by simp
  then have u: "AList.update (length m) p m = m @ [(length m, p)]"
    using update_fresh [of "length m" m p] by simp
  have c: "map fst (m @ [(length m, p)]) = [0..<length (m @ [(length m, p)])]"
    using Suc.prems by simp
  show ?case
    using Suc.IH [OF c, of "acc @ [length m]"] u
    by (simp add: Let_def upt_conv_Cons del: upt_Suc)
qed

lemma pages_needed_ceiling:
  fixes sz :: int
  shows "4096 * ((sz + 4095) div 4096 - 1) < sz \<and> sz \<le> 4096 * ((sz + 4095) div 4096)"
proof -
  define q where "q = (sz + 4095) div 4096"
  define r where "r = (sz + 4095) mod 4096"
  have e: "sz + 4095 = 4096 * q + r" unfolding q_def r_def by simp
  have r: "0 \<le> r" "r < 4096" unfolding r_def by simp_all
  have "4096 * (q - 1) < sz" using e r by (simp add: algebra_simps)
  moreover have "sz \<le> 4096 * q" using e r by (simp add: algebra_simps)
  ultimately show ?thesis unfolding q_def by blast
qed

lemma allocate_memory_compact:
  assumes "page_size mm = 4096" "0 \<le> sz" "sz \<le> available_memory mm"
    "map fst (memory_map mm) = [0..<length (memory_map mm)]"
  shows "allocate_memory mm p sz =
     (mm\<lparr>memory_map := memory_map mm @
               map (\<lambda>i. (i, p))
                 [length (memory_map mm) ..< length (memory_map mm) + nat ((sz + 4095) div 4096)],
          available_memory := available_memory mm - ((sz + 4095) div 4096) * 4096\<rparr>,
      Inr [length (memory_map mm) ..< length (memory_map mm) + nat ((sz + 4095) div 4096)])"
  using assms by (simp add: allocate_memory_def allocate_pages_compact Let_def add.commute)

lemma allocate_memory_conserved:
  assumes "page_size mm = 4096" "0 \<le> sz"
    "map fst (memory_map mm) = [0..<length (memory_map mm)]" "conserved mm"
  shows "conserved (fst (allocate_memory mm p sz)) \<and>
         map fst (memory_map (fst (allocate_memory mm p sz))) =
           [0..<length (memory_map (fst (allocate_memory mm p sz)))]"
proof (cases "sz \<le> available_memory mm")
  case True
  let ?n = "nat ((sz + 4095) div 4096)"
  let ?l = "length (memory_map mm)"
  have n: "int ?n = (sz + 4095) div 4096" using assms(2) by simp
  have f: "map fst (map (\<lambda>i. (i, p)) [?l ..< ?l + ?n]) = [?l ..< ?l + ?n]"
    by (simp add: o_def)
  have u: "[0..<?l] @ [?l ..< ?l + ?n] = [0..<?l + ?n]"
    using upt_add_eq_append [of 0 ?l ?n] by simp
  have c: "conserved (fst (allocate_memory mm p sz))"
    using assms(1,4) n
    unfolding allocate_memory_compact [OF assms(1,2) True assms(3)] conserved_def
    by (simp add: algebra_simps)
  have "map fst (memory_map (fst (allocate_memory mm p sz))) =
           [0..<length (memory_map (fst (allocate_memory mm p sz)))]"
    unfolding allocate_memory_compact [OF assms(1,2) True assms(3)]
    using assms(3) f u by simp
  with c show ?thesis by blast
next
  case False
  with assms show ?thesis by (simp add: allocate_memory_def)
qed

lemma first_allocation:
  "allocate_memory (MemoryManager_init (1024 * 1024)) 1 5000 =
     (\<lparr>total_memory = 1048576, available_memory = 1048576 - 8192,
       memory_map = [(0, 1), (1, 1)], page_size = 4096\<rparr>, Inr [0, 1])"
  by (simp add: MemoryManager_init_def allocate_memory_def numeral_eq_Suc)


lemma length_delete:
  "distinct (map fst m) \<Longrightarrow> k \<in> fst ` set m \<Longrightarrow> Suc (length (AList.delete k m)) = length m"
proof (induction m)
  case Nil
  then show ?case by simp
next
  case (Cons a m)
  show ?case
  proof (cases "fst a = k")
    case True
    with Cons.prems have "k \<notin> fst ` set m" by auto
    then have "AList.delete k m = m" by (simp add: delete_id)
    with True show ?thesis by (cases a) (simp add: AList.delete_eq)
  next
    case False
    with Cons show ?thesis by (auto simp: AList.delete_eq)
  qed
qed

lemma fold_free_page:
  "distinct (map fst (memory_map mm)) \<Longrightarrow> distinct ks \<Longrightarrow> set ks \<subseteq> fst ` set (memory_map mm) \<Longrightarrow>
   available_memory (fold free_page ks mm) = available_memory mm + page_size mm * int (length ks) \<and>
   length (memory_map (fold free_page ks mm)) + length ks = length (memory_map mm) \<and>
   page_size (fold free_page ks mm) = page_size mm \<and>
   total_memory (fold free_page ks mm) = total_memory mm"
proof (induction ks arbitrary: mm)
  case Nil
  show ?case by simp
next
  case (Cons k ks)
  let ?mm = "free_page k mm"
  have d: "distinct (map fst (memory_map ?mm))"
    using Cons.prems(1) by (simp add: free_page_def distinct_delete)
  have s: "set ks \<subseteq> fst ` set (memory_map ?mm)"
  proof
    fix x assume x: "x \<in> set ks"
    with Cons.prems(2) have "x \<noteq> k" by auto
    moreover from x Cons.prems(3) obtain b where "(x, b) \<in> set (memory_map mm)" by auto
    ultimately have "(x, b) \<in> set (memory_map ?mm)"
      by (simp add: free_page_def AList.delete_eq)
    then show "x \<in> fst ` set (memory_map ?mm)" by force
  qed
  have l: "Suc (length (memory_map ?mm)) = length (memory_map mm)"
    using length_delete [of "memory_map mm" k] Cons.prems(1,3) by (simp add: free_page_def)
  have k: "distinct ks" using Cons.prems(2) by simp
  from Cons.IH [OF d k s] l show ?case
    by (simp add: free_page_def algebra_simps)
qed

lemma free_memory_conserved:
  assumes "distinct (map fst (memory_map mm))" "conserved mm"
  shows "conserved (free_memory mm p) \<and> distinct (map fst (memory_map (free_memory mm p)))"
proof -
  let ?ks = "map fst (filter (\<lambda>(page_id, owner). owner = p) (memory_map mm))"
  have d: "distinct ?ks" using assms(1) by (simp add: distinct_map_filter)
  have s: "set ?ks \<subseteq> fst ` set (memory_map mm)" by auto
  have "distinct (map fst (memory_map (fold free_page ks m)))"
    if "distinct (map fst (memory_map m))" for ks m
    using that by (induction ks arbitrary: m) (simp_all add: free_page_def distinct_delete)
  then have "distinct (map fst (memory_map (free_memory mm p)))"
    using assms(1) by (simp add: free_memory_def)
  moreover have "conserved (free_memory mm p)"
  proof -
    let ?mm = "fold free_page ?ks mm"
    from fold_free_page [OF assms(1) d s]
    have a: "available_memory ?mm = available_memory mm + page_size mm * int (length ?ks)"
      and l: "length (memory_map ?mm) + length ?ks = length (memory_map mm)"
      and p: "page_size ?mm = page_size mm" and t: "total_memory ?mm = total_memory mm"
      by blast+
    from l have "int (length (memory_map mm)) = int (length (memory_map ?mm)) + int (length ?ks)"
      by linarith
    with assms(2) a p t have "conserved ?mm"
      by (simp add: conserved_def distrib_left)
    then show ?thesis by (simp add: free_memory_def)
  qed
  ultimately show ?thesis by blast
qed

lemma mm_after_free_eq:
  "mm_after_free =
     \<lparr>total_memory = 1048576, available_memory = 1044480, memory_map = [(1, 2)],
      page_size = 4096\<rparr>"
  by (simp add: mm_after_free_def mem_run_def MemoryManager_init_def allocate_memory_def
      free_memory_def free_page_def numeral_eq_Suc AList.delete_eq)

section \<open>Memory conservation\<close>

text \<open>
  C1: after every call of a sequence of \<open>allocate_memory\<close> and \<open>free_memory\<close> calls,
  \<open>available_memory + page_size * (number of live pages) = total_memory\<close>, with page
  size 4096. The code does not keep this: on the default manager, after
  \<open>allocate_memory(p1, 4096)\<close>, \<open>allocate_memory(p2, 4096)\<close> and \<open>free_memory(1)\<close> the
  equation holds with one live page, of id 1; \<open>allocate_memory(p3, 4096)\<close> then takes
  \<open>len(memory_map) = 1\<close> as page id, overwrites that page and subtracts 4096 bytes, so
  that 1040384 free bytes and one live page stand against 1048576 bytes in total.
\<close>

theorem conservation_broken:
  "conserved mm_after_free \<and>
   mem_step mm_after_free (AllocateMemory 3 4096) =
     \<lparr>total_memory = 1048576, available_memory = 1040384, memory_map = [(1, 3)],
      page_size = 4096\<rparr> \<and>
   \<not> conserved (mem_step mm_after_free (AllocateMemory 3 4096))"
  by (simp add: mm_after_free_eq conserved_def allocate_memory_def)

section \<open>Page ids\<close>

text \<open>
  C2: no id returned by \<open>allocate_memory\<close> equals the id of a page that exists or
  existed before. The code takes \<open>len(memory_map)\<close> as the next id, so after a free the
  ids are not fresh: in the manager above page 1 is live and belongs to process 2, and
  \<open>allocate_memory(p3, 4096)\<close> returns the id 1 again and gives the page to process 3.
\<close>

theorem page_id_reissued:
  "map_of (memory_map mm_after_free) 1 = Some 2 \<and>
   snd (allocate_memory mm_after_free 3 4096) = Inr [1] \<and>
   map_of (memory_map (fst (allocate_memory mm_after_free 3 4096))) 1 = Some 3"
  by (simp add: mm_after_free_eq allocate_memory_def)

section \<open>Pages of an allocation\<close>

text \<open>
  C7: a successful \<open>allocate_memory(process, size)\<close> allocates \<open>\<lceil>size / 4096\<rceil>\<close> new
  page records of the process, subtracts that many pages from \<open>available_memory\<close> and
  returns the new ids; a request of 5000 bytes allocates 2 pages and subtracts 8192.
  In the manager above a request of 5000 bytes subtracts 8192 bytes but allocates no
  new page: it returns the ids \<open>[1, 1]\<close>, and the page map still has the one page 1,
  now of process 3.
\<close>

theorem allocation_overwrites:
  "allocate_memory mm_after_free 3 5000 =
     (\<lparr>total_memory = 1048576, available_memory = 1036288, memory_map = [(1, 3)],
       page_size = 4096\<rparr>, Inr [1, 1])"
  by (simp add: mm_after_free_eq allocate_memory_def numeral_eq_Suc)

section \<open>Termination and memory\<close>

text \<open>
  C9: \<open>terminate_process\<close> frees no memory page: for every pid, the memory manager
  of the system, hence its page map and its \<open>available_memory\<close>, is the same after the
  call (also when \<open>execute_cycle\<close> makes the call), so that a terminated process can
  still hold pages: after creating process 1, allocating 5000 bytes for it and
  terminating it, the process is \<open>TERMINATED\<close> and pages 0 and 1 are still its own.
\<close>

theorem terminate_process_keeps_memory:
  "memory_manager (os_terminate_process os p) = memory_manager os \<and>
   memory_map (memory_manager (os_terminate_process os p)) = memory_map (memory_manager os) \<and>
   available_memory (memory_manager (os_terminate_process os p)) =
     available_memory (memory_manager os) \<and>
   memory_manager (os_execute_cycle os) = memory_manager os \<and>
   map_option state (processes (scheduler os_holding) 1) = Some TERMINATED \<and>
   memory_map (memory_manager os_holding) = [(0, 1), (1, 1)] \<and>
   available_memory (memory_manager os_holding) = 1024 * 1024 - 8192"
  by (simp add: os_terminate_process_def os_execute_cycle_def os_holding_def
      os_allocate_memory_def os_create_process_def NexusOS_init_def MemoryManager_init_def
      ProcessScheduler_init_def allocate_memory_def create_process_def terminate_process_def
      upd_obj_def Let_def Process_init_def deref_def numeral_eq_Suc)

section \<open>Allocation failure\<close>

text \<open>
  C5: \<open>allocate_memory\<close> raises \<open>MemoryError\<close> exactly when the requested number of
  bytes exceeds \<open>available_memory\<close> (the raw size, not the rounded page cost), and
  then the manager, hence its page map and \<open>available_memory\<close>, is unchanged.
\<close>

theorem allocate_memory_insufficient:
  "(snd (allocate_memory mm p sz) = Inl MemoryError) = (sz > available_memory mm) \<and>
   (sz > available_memory mm \<longrightarrow>
      memory_map (fst (allocate_memory mm p sz)) = memory_map mm \<and>
      available_memory (fst (allocate_memory mm p sz)) = available_memory mm \<and>
      fst (allocate_memory mm p sz) = mm)"
  by (simp add: allocate_memory_def Let_def split: prod.splits)

theorem allocate_memory_insufficient_witness:
  "snd (allocate_memory (MemoryManager_init 8192) 1 8193) = Inl MemoryError \<and>
   fst (allocate_memory (MemoryManager_init 8192) 1 8193) = MemoryManager_init 8192 \<and>
   snd (allocate_memory (MemoryManager_init 8192) 1 8190) \<noteq> Inl MemoryError"
  using allocate_memory_insufficient [of "MemoryManager_init 8192" 1 8193]
    allocate_memory_insufficient [of "MemoryManager_init 8192" 1 8190]
  by (simp add: MemoryManager_init_def)

end
